theory Spec2Isabelle
  imports
    Main
    "HOL-Library.Word"
    "HOL-Library.Multiset"
    "HOL-Library.Char_ord"
    "HOL-Library.List_Lexorder"
    "HOL-Library.Product_Lexorder"
begin

section \<open>The search page: \<^verbatim>\<open>src/frontend/src/routes/+page.svelte\<close>\<close>

subsection \<open>JavaScript strings\<close>

text \<open>
  A JavaScript string is a sequence of UTF-16 code units. The page's \<^verbatim>\<open>query\<close> is
  bound to a text input, so it may hold any such sequence, unpaired surrogates included.
  String literals of the source are ASCII and are written through \<open>js\<close>.
\<close>

type_synonym code_unit = "16 word"
type_synonym jsstring = "code_unit list"

definition js :: "string \<Rightarrow> jsstring" where
  "js s = map of_char s"

text \<open>
  \<^verbatim>\<open>String.prototype.trim\<close> (ECMA-262, TrimString) removes leading and trailing
  white space, which is WhiteSpace (TAB, VT, FF, ZWNBSP and the space separators Zs)
  together with LineTerminator (LF, CR, LS, PS). All of them are single code units.
\<close>

definition is_white_space :: "code_unit \<Rightarrow> bool" where
  "is_white_space c \<longleftrightarrow>
     c = 0x0009 \<or> c = 0x000B \<or> c = 0x000C \<or> c = 0xFEFF \<or>
     c = 0x0020 \<or> c = 0x00A0 \<or> c = 0x1680 \<or> (0x2000 \<le> c \<and> c \<le> 0x200A) \<or>
     c = 0x202F \<or> c = 0x205F \<or> c = 0x3000 \<or>
     c = 0x000A \<or> c = 0x000D \<or> c = 0x2028 \<or> c = 0x2029"

definition trim :: "jsstring \<Rightarrow> jsstring" where
  "trim s = rev (dropWhile is_white_space (rev (dropWhile is_white_space s)))"

text \<open>
  \<^verbatim>\<open>encodeURIComponent\<close> (ECMA-262, Encode with no extra unescaped characters). It
  walks the string by code points: an unescaped character is copied, every other code
  point is written as the percent-escaped octets of its UTF-8 encoding, and an unpaired
  surrogate throws \<^verbatim>\<open>URIError\<close>.
\<close>

definition is_uri_unescaped :: "code_unit \<Rightarrow> bool" where
  "is_uri_unescaped c \<longleftrightarrow>
     (0x41 \<le> c \<and> c \<le> 0x5A) \<or> (0x61 \<le> c \<and> c \<le> 0x7A) \<or> (0x30 \<le> c \<and> c \<le> 0x39) \<or>
     c = 0x5F \<or> c = 0x2D \<or> c = 0x2E \<or> c = 0x21 \<or> c = 0x7E \<or> c = 0x2A \<or>
     c = 0x27 \<or> c = 0x28 \<or> c = 0x29"

definition is_leading_surrogate :: "code_unit \<Rightarrow> bool" where
  "is_leading_surrogate c \<longleftrightarrow> 0xD800 \<le> c \<and> c \<le> 0xDBFF"

definition is_trailing_surrogate :: "code_unit \<Rightarrow> bool" where
  "is_trailing_surrogate c \<longleftrightarrow> 0xDC00 \<le> c \<and> c \<le> 0xDFFF"

definition surrogate_pair_to_code_point :: "code_unit \<Rightarrow> code_unit \<Rightarrow> nat" where
  "surrogate_pair_to_code_point lead trail =
     (unat lead - 0xD800) * 0x400 + (unat trail - 0xDC00) + 0x10000"

definition utf8_octets :: "nat \<Rightarrow> 8 word list" where
  "utf8_octets cp =
     (if cp < 0x80 then [of_nat cp]
      else if cp < 0x800 then [of_nat (0xC0 + cp div 0x40), of_nat (0x80 + cp mod 0x40)]
      else if cp < 0x10000 then
        [of_nat (0xE0 + cp div 0x1000), of_nat (0x80 + cp div 0x40 mod 0x40),
         of_nat (0x80 + cp mod 0x40)]
      else
        [of_nat (0xF0 + cp div 0x40000), of_nat (0x80 + cp div 0x1000 mod 0x40),
         of_nat (0x80 + cp div 0x40 mod 0x40), of_nat (0x80 + cp mod 0x40)])"

definition hex_digit :: "nat \<Rightarrow> code_unit" where
  "hex_digit n = (if n < 10 then of_nat (0x30 + n) else of_nat (0x41 + (n - 10)))"

definition percent_escape :: "8 word \<Rightarrow> jsstring" where
  "percent_escape octet = [0x25, hex_digit (unat octet div 16), hex_digit (unat octet mod 16)]"

datatype js_error = URIError | TypeError | SyntaxError | OtherError jsstring

fun encodeURIComponent :: "jsstring \<Rightarrow> js_error + jsstring" where
  "encodeURIComponent [] = Inr []"
| "encodeURIComponent (c # cs) =
     (if is_uri_unescaped c then
        (case encodeURIComponent cs of Inl e \<Rightarrow> Inl e | Inr r \<Rightarrow> Inr (c # r))
      else if is_trailing_surrogate c then Inl URIError
      else if is_leading_surrogate c then
        (case cs of
           [] \<Rightarrow> Inl URIError
         | d # ds \<Rightarrow>
             if is_trailing_surrogate d then
               (case encodeURIComponent ds of
                  Inl e \<Rightarrow> Inl e
                | Inr r \<Rightarrow>
                    Inr (concat (map percent_escape
                           (utf8_octets (surrogate_pair_to_code_point c d))) @ r))
             else Inl URIError)
      else
        (case encodeURIComponent cs of
           Inl e \<Rightarrow> Inl e
         | Inr r \<Rightarrow> Inr (concat (map percent_escape (utf8_octets (unat c))) @ r)))"

subsection \<open>Values, responses and the page state\<close>

text \<open>
  What \<^verbatim>\<open>response.json()\<close> resolves with is a parsed JSON value; its numbers play no
  part in the page and stay a type parameter. A variable of the page holds such a value
  or \<^verbatim>\<open>undefined\<close>: the TypeScript annotation \<^verbatim>\<open>SearchResult[]\<close> is not checked
  at run time, so \<^verbatim>\<open>results\<close> holds whatever \<^verbatim>\<open>data.results\<close> was.
\<close>

datatype 'n json =
    JNull
  | JBool bool
  | JNum 'n
  | JStr jsstring
  | JArr "'n json list"
  | JObj "(jsstring \<times> 'n json) list"

datatype 'n jsvalue = Undefined | Value "'n json"

text \<open>
  \<^verbatim>\<open>fetch\<close> rejects on a network failure and resolves with a response otherwise,
  whatever the HTTP status; \<^verbatim>\<open>response.json()\<close> rejects when the body is not JSON.
\<close>

datatype 'n json_outcome = JsonRejects js_error | JsonResolves "'n json"

datatype 'n fetch_outcome = FetchRejects js_error | FetchResolves nat "'n json_outcome"

text \<open>
  The variables of the component that \<^verbatim>\<open>search\<close> reads or writes, and the browser
  console it logs to. \<^verbatim>\<open>stats\<close> is written by \<^verbatim>\<open>onMount\<close> only.
\<close>

record 'n page =
  query :: jsstring
  results :: "'n jsvalue"
  stats :: "'n jsvalue"
  loading :: bool
  console :: "(jsstring \<times> js_error) list"

definition API_BASE :: jsstring where
  "API_BASE = js ''http://localhost:8000''"

text \<open>
  \<^verbatim>\<open>data.results\<close>: reading a property of \<^verbatim>\<open>null\<close> throws a TypeError; an object
  gives its own property or \<^verbatim>\<open>undefined\<close>; arrays, strings, numbers and booleans have
  no property of that name.
\<close>

fun get_results :: "'n json \<Rightarrow> js_error + 'n jsvalue" where
  "get_results JNull = Inl TypeError"
| "get_results (JObj props) =
     Inr (case map_of props (js ''results'') of None \<Rightarrow> Undefined | Some v \<Rightarrow> Value v)"
| "get_results _ = Inr Undefined"

subsection \<open>The function \<^verbatim>\<open>search\<close>\<close>

text \<open>
  \<^verbatim>\<open>
  async function search() {
    if (!query.trim()) { results = []; return; }
    loading = true;
    try {
      const response = await fetch(`${API_BASE}/search?q=${encodeURIComponent(query)}&limit=20`);
      const data = await response.json();
      results = data.results;
    } catch (error) {
      console.error('Search failed:', error);
    } finally {
      loading = false;
    }
  }
  \<close>
  An async function runs to its first \<^verbatim>\<open>await\<close>, then resumes when the awaited
  promise settles; other handlers of the page may run in between. The three segments are
  \<open>search_begin\<close> (up to \<^verbatim>\<open>await fetch\<close>, giving the URL it requests, if any),
  \<open>search_fetched\<close> (up to \<^verbatim>\<open>await response.json()\<close>) and \<open>search_parsed\<close>.
\<close>

definition catch_finally :: "'n page \<Rightarrow> js_error \<Rightarrow> 'n page" where
  "catch_finally st error =
     st\<lparr>console := console st @ [(js ''Search failed:'', error)], loading := False\<rparr>"

definition search_begin :: "'n page \<Rightarrow> 'n page \<times> jsstring option" where
  "search_begin st =
     (if trim (query st) = [] then (st\<lparr>results := Value (JArr [])\<rparr>, None)
      else
        (case encodeURIComponent (query st) of
           Inl error \<Rightarrow> (catch_finally (st\<lparr>loading := True\<rparr>) error, None)
         | Inr q \<Rightarrow>
             (st\<lparr>loading := True\<rparr>, Some (API_BASE @ js ''/search?q='' @ q @ js ''&limit=20''))))"

definition search_fetched ::
  "'n page \<Rightarrow> 'n fetch_outcome \<Rightarrow> 'n page \<times> 'n json_outcome option" where
  "search_fetched st outcome =
     (case outcome of
        FetchRejects error \<Rightarrow> (catch_finally st error, None)
      | FetchResolves status body \<Rightarrow> (st, Some body))"

definition search_parsed :: "'n page \<Rightarrow> 'n json_outcome \<Rightarrow> 'n page" where
  "search_parsed st body =
     (case body of
        JsonRejects error \<Rightarrow> catch_finally st error
      | JsonResolves data \<Rightarrow>
          (case get_results data of
             Inl error \<Rightarrow> catch_finally st error
           | Inr v \<Rightarrow> st\<lparr>results := v, loading := False\<rparr>))"

text \<open>
  One whole call. \<open>net\<close> is what the network answers to a URL; \<open>during_fetch\<close> and
  \<open>during_json\<close> are whatever the rest of the page does to the state while the call is
  suspended at its two \<^verbatim>\<open>await\<close>s (the identity when nothing else runs). The result
  is the state when the call ends and the URLs it requested. The network always answers
  here: a fetch that never settles leaves the call suspended and is not modelled.
\<close>

definition search ::
  "(jsstring \<Rightarrow> 'n fetch_outcome) \<Rightarrow> ('n page \<Rightarrow> 'n page) \<Rightarrow> ('n page \<Rightarrow> 'n page) \<Rightarrow>
   'n page \<Rightarrow> 'n page \<times> jsstring list" where
  "search net during_fetch during_json st =
     (case search_begin st of
        (st1, None) \<Rightarrow> (st1, [])
      | (st1, Some url) \<Rightarrow>
          (case search_fetched (during_fetch st1) (net url) of
             (st2, None) \<Rightarrow> (st2, [url])
           | (st2, Some body) \<Rightarrow> (search_parsed (during_json st2) body, [url])))"

text \<open>
  The name and value pairs a receiver reads from a URL: the query component runs from the
  first \<^verbatim>\<open>?\<close> to the first \<^verbatim>\<open>#\<close> (RFC 3986), its pairs are separated by
  \<^verbatim>\<open>&\<close>, and each splits at its first \<^verbatim>\<open>=\<close>. Values are left percent-encoded.
\<close>

fun split_on :: "'a \<Rightarrow> 'a list \<Rightarrow> 'a list list" where
  "split_on sep [] = [[]]"
| "split_on sep (x # xs) =
     (if x = sep then [] # split_on sep xs
      else (case split_on sep xs of [] \<Rightarrow> [[x]] | p # ps \<Rightarrow> (x # p) # ps))"

definition query_component :: "jsstring \<Rightarrow> jsstring" where
  "query_component url =
     takeWhile (\<lambda>c. c \<noteq> 0x23) (drop 1 (dropWhile (\<lambda>c. c \<noteq> 0x3F) url))"

definition query_params :: "jsstring \<Rightarrow> (jsstring \<times> jsstring) list" where
  "query_params url =
     map (\<lambda>p. (takeWhile (\<lambda>c. c \<noteq> 0x3D) p, drop 1 (dropWhile (\<lambda>c. c \<noteq> 0x3D) p)))
       (split_on 0x26 (query_component url))"

text \<open>
  The network outcomes on which the \<^verbatim>\<open>try\<close> block throws: the fetch rejects, the
  body is not JSON, or the parsed body is \<^verbatim>\<open>null\<close>. These are fewer than the failed
  requests: a response with an error status and a JSON body makes nothing throw, since the
  page never reads \<^verbatim>\<open>response.ok\<close> or the status.
\<close>

fun try_block_throws :: "'n fetch_outcome \<Rightarrow> bool" where
  "try_block_throws (FetchRejects error) = True"
| "try_block_throws (FetchResolves status (JsonRejects error)) = True"
| "try_block_throws (FetchResolves status (JsonResolves data)) =
     (case get_results data of Inl error \<Rightarrow> True | Inr v \<Rightarrow> False)"

definition uri_safe :: "code_unit \<Rightarrow> bool" where
  "uri_safe c \<longleftrightarrow> is_uri_unescaped c \<or> c = 0x25"

section \<open>The Storage Engine (spec 3 and 4.4)\<close>

text \<open>
  The repository's backend (the SQLite and FTS5 schema and the read API the page calls)
  is not among the source files; the engine is modelled from the specification.
\<close>

text \<open>Modelled from the spec: the enum \<^verbatim>\<open>kind\<close> of an Entity, \<^verbatim>\<open>{item, property}\<close>.\<close>

datatype kind = Item | Property

text \<open>Modelled from the spec: the enum \<^verbatim>\<open>source\<close> of an Entity, \<^verbatim>\<open>{dump, api}\<close>.\<close>

datatype source = Dump | Api

text \<open>
  Modelled from the spec: the Entity of section 3. Labels and descriptions map a language
  code to a string, aliases map it to a set of strings (insertion order irrelevant),
  \<^verbatim>\<open>claims\<close> is an opaque payload and \<^verbatim>\<open>fetched_at\<close> a timestamp. The field
  \<^verbatim>\<open>id\<close> is named \<open>entity_id\<close> here.
\<close>

record entity =
  entity_id :: string
  kind :: kind
  labels :: "string \<rightharpoonup> string"
  descriptions :: "string \<rightharpoonup> string"
  aliases :: "string \<rightharpoonup> string set"
  claims :: string
  fetched_at :: nat
  source :: source

text \<open>
  Modelled from the spec: the persisted Entity rows the Storage Engine owns, in the
  physical order of the table. The order carries no meaning.
\<close>

type_synonym storage = "entity list"

text \<open>Modelled from the spec: the invariant of section 3, \<^verbatim>\<open>id\<close> is globally unique.\<close>

definition unique_ids :: "storage \<Rightarrow> bool" where
  "unique_ids st \<longleftrightarrow> distinct (map entity_id st)"

text \<open>
  Modelled from the spec: the text the SearchIndex holds for an Entity (label,
  description and alias text, per language).
\<close>

definition indexed_text :: "entity \<Rightarrow> string set" where
  "indexed_text e = ran (labels e) \<union> ran (descriptions e) \<union> \<Union> (ran (aliases e))"

text \<open>
  Modelled from the spec: the SearchIndex, derived and rebuildable from the Entity rows.
  It is a function of the rows, so an upsert updates the index entries of the ids it
  writes together with the rows.
\<close>

definition search_index :: "storage \<Rightarrow> (string \<times> string set) list" where
  "search_index st = map (\<lambda>e. (entity_id e, indexed_text e)) st"

text \<open>
  Modelled from the spec: the write of one row, replacing the existing row of the same
  \<^verbatim>\<open>id\<close> entirely, or adding a row when there is none.
\<close>

fun upsert :: "entity \<Rightarrow> storage \<Rightarrow> storage" where
  "upsert e [] = [e]"
| "upsert e (r # rs) = (if entity_id r = entity_id e then e # rs else r # upsert e rs)"

text \<open>Modelled from the spec: the failure modes of the Storage Engine (4.4).\<close>

datatype storage_error = StorageIOError | ConstraintError

text \<open>
  Modelled from the spec: \<^verbatim>\<open>upsert_batch(entities)\<close>, which writes all rows of the
  batch in order, or fails with \<^verbatim>\<open>StorageIOError\<close> (disk, full, permission) and
  writes nothing. Whether the disk accepts the transaction is the argument \<open>disk_ok\<close>;
  the commit token it returns has no content in the spec and is left out.
\<close>

definition upsert_batch :: "bool \<Rightarrow> entity list \<Rightarrow> storage \<Rightarrow> storage_error + storage" where
  "upsert_batch disk_ok entities st =
     (if disk_ok then Inr (fold upsert entities st) else Inl StorageIOError)"

text \<open>Modelled from the spec: \<^verbatim>\<open>get(id) -> Entity | NotFound\<close>.\<close>

definition engine_get :: "string \<Rightarrow> storage \<Rightarrow> entity option" where
  "engine_get i st = find (\<lambda>e. entity_id e = i) st"

text \<open>Modelled from the spec: \<^verbatim>\<open>stats() -> counts by kind\<close>.\<close>

definition engine_stats :: "storage \<Rightarrow> kind \<Rightarrow> nat" where
  "engine_stats st k = length (filter (\<lambda>e. kind e = k) st)"

text \<open>
  Modelled from the spec: the tokenized match of \<^verbatim>\<open>search\<close>. The spec does not say
  how text is tokenized or scored, so the scoring is the argument \<open>relevance\<close>: the
  score of the indexed text for the query, or \<open>None\<close> when it does not match.
\<close>

definition matches ::
  "(string \<Rightarrow> string set \<Rightarrow> int option) \<Rightarrow> string \<Rightarrow> storage \<Rightarrow> (entity \<times> int) list" where
  "matches relevance query_text st =
     concat (map (\<lambda>e. case relevance query_text (indexed_text e) of
                          None \<Rightarrow> [] | Some score \<Rightarrow> [(e, score)]) st)"

text \<open>
  Modelled from the spec: the sort key of a hit, highest relevance first and then
  \<^verbatim>\<open>id\<close> ascending (strings compare lexicographically by character code).
\<close>

definition rank_key :: "entity \<times> int \<Rightarrow> int \<times> string" where
  "rank_key hit = (- snd hit, entity_id (fst hit))"

text \<open>
  Modelled from the spec: \<^verbatim>\<open>search(query_text, limit)\<close>, the matching rows with
  their scores, sorted and cut at \<open>limit\<close>. The Entity summary is the row itself.
\<close>

definition engine_search ::
  "(string \<Rightarrow> string set \<Rightarrow> int option) \<Rightarrow> string \<Rightarrow> nat \<Rightarrow> storage \<Rightarrow> (entity \<times> int) list"
  where
  "engine_search relevance query_text limit st =
     take limit (sort_key rank_key (matches relevance query_text st))"

text \<open>
  The order the claim names: a hit ranks before another when its score is higher, or
  the scores tie and its \<^verbatim>\<open>id\<close> is smaller.
\<close>

definition ranks_before :: "entity \<times> int \<Rightarrow> entity \<times> int \<Rightarrow> bool" where
  "ranks_before a b \<longleftrightarrow>
     snd a > snd b \<or> (snd a = snd b \<and> entity_id (fst a) < entity_id (fst b))"

text \<open>
  What a row becomes when the writes of a batch that carry its \<^verbatim>\<open>id\<close> are applied
  to it in order.
\<close>

definition latest :: "entity list \<Rightarrow> entity \<Rightarrow> entity" where
  "latest es r = fold (\<lambda>e r. if entity_id e = entity_id r then e else r) es r"

text \<open>
  The entities of the spec's search example (section 8), a later version of the first,
  and a scoring that matches a text starting with the query.
\<close>

definition paris :: entity where
  "paris = \<lparr>entity_id = ''Q1'', kind = Item, labels = [''en'' \<mapsto> ''Paris''],
     descriptions = Map.empty, aliases = Map.empty, claims = [], fetched_at = 1,
     source = Dump\<rparr>"

definition paris_hilton :: entity where
  "paris_hilton = \<lparr>entity_id = ''Q2'', kind = Item, labels = [''en'' \<mapsto> ''Paris Hilton''],
     descriptions = Map.empty, aliases = Map.empty, claims = [], fetched_at = 1,
     source = Dump\<rparr>"

definition paris_later :: entity where
  "paris_later = \<lparr>entity_id = ''Q1'', kind = Item, labels = [''en'' \<mapsto> ''Paris''],
     descriptions = [''en'' \<mapsto> ''capital of France''], aliases = Map.empty,
     claims = [], fetched_at = 2, source = Api\<rparr>"

definition starts_with :: "string \<Rightarrow> string set \<Rightarrow> int option" where
  "starts_with q texts = (if \<exists>t\<in>texts. take (length q) t = q then Some 1 else None)"

section \<open>Properties of the search page\<close>

subsection \<open>Strings: trimming and escaping\<close>

lemma trim_empty_iff: "trim s = [] \<longleftrightarrow> (\<forall>c\<in>set s. is_white_space c)"
proof -
  have "trim s = [] \<longleftrightarrow> (\<forall>c\<in>set (dropWhile is_white_space s). is_white_space c)"
    by (simp add: trim_def dropWhile_eq_Nil_conv)
  also have "\<dots> \<longleftrightarrow> dropWhile is_white_space s = []"
  proof
    assume a: "\<forall>c\<in>set (dropWhile is_white_space s). is_white_space c"
    show "dropWhile is_white_space s = []"
    proof (cases "dropWhile is_white_space s")
      case Nil
      then show ?thesis .
    next
      case (Cons x xs)
      then have "\<not> is_white_space x"
        by (metis hd_dropWhile list.sel(1) list.distinct(1))
      with a Cons show ?thesis by simp
    qed
  next
    assume h: "dropWhile is_white_space s = []"
    show "\<forall>c\<in>set (dropWhile is_white_space s). is_white_space c"
      unfolding h by simp
  qed
  also have "\<dots> \<longleftrightarrow> (\<forall>c\<in>set s. is_white_space c)"
    by (simp add: dropWhile_eq_Nil_conv)
  finally show ?thesis .
qed

lemma hex_digit_unescaped: "n < 16 \<Longrightarrow> is_uri_unescaped (hex_digit n)"
proof -
  assume n: "n < 16"
  have u: "unat (hex_digit n) = (if n < 10 then 48 + n else 55 + n)"
    using n by (simp add: hex_digit_def unat_of_nat del: of_nat_add of_nat_numeral)
  show ?thesis
  proof (cases "n < 10")
    case True
    with u have "0x30 \<le> hex_digit n \<and> hex_digit n \<le> 0x39"
      by (simp add: word_le_nat_alt)
    then show ?thesis by (simp add: is_uri_unescaped_def)
  next
    case False
    with u n have "0x41 \<le> hex_digit n \<and> hex_digit n \<le> 0x5A"
      by (simp add: word_le_nat_alt)
    then show ?thesis by (simp add: is_uri_unescaped_def)
  qed
qed

lemma percent_escape_safe: "c \<in> set (percent_escape octet) \<Longrightarrow> uri_safe c"
proof -
  have "unat octet < 256" using unsigned_less [of octet, where 'a = nat] by simp
  then have "unat octet div 16 < 16" by simp
  moreover have "unat octet mod 16 < 16" by simp
  ultimately show "c \<in> set (percent_escape octet) \<Longrightarrow> uri_safe c"
    by (auto simp: percent_escape_def uri_safe_def hex_digit_unescaped)
qed

text \<open>Whatever \<open>encodeURIComponent\<close> returns is made of unescaped characters and \<^verbatim>\<open>%\<close>.\<close>

lemma encodeURIComponent_safe:
  "encodeURIComponent s = Inr e \<Longrightarrow> c \<in> set e \<Longrightarrow> uri_safe c"
proof (induction s arbitrary: e rule: encodeURIComponent.induct)
  case 1
  then show ?case by simp
next
  case (2 c' cs)
  show ?case
  proof (cases "is_uri_unescaped c'")
    case True
    with 2 show ?thesis
      by (auto simp: uri_safe_def split: sum.splits)
  next
    case False
    note nu = this
    show ?thesis
    proof (cases "is_leading_surrogate c'")
      case True
      with 2 nu show ?thesis
        by (auto split: if_splits sum.splits list.splits dest: percent_escape_safe)
    next
      case False
      with 2 nu show ?thesis
        by (auto split: if_splits sum.splits dest: percent_escape_safe)
    qed
  qed
qed

lemma uri_safe_not_delim:
  "uri_safe c \<Longrightarrow> c \<noteq> 0x26 \<and> c \<noteq> 0x3D \<and> c \<noteq> 0x23 \<and> c \<noteq> 0x3F"
  by (auto simp: uri_safe_def is_uri_unescaped_def)

lemma split_on_append:
  "sep \<notin> set xs \<Longrightarrow> split_on sep (xs @ sep # ys) = xs # split_on sep ys"
  by (induction xs) auto

lemma query_params_search_url:
  assumes "\<forall>c\<in>set e. uri_safe c"
  shows "query_params (API_BASE @ js ''/search?q='' @ e @ js ''&limit=20'')
         = [(js ''q'', e), (js ''limit'', js ''20'')]"
proof -
  have e: "0x26 \<notin> set e" "0x3D \<notin> set e" "0x23 \<notin> set e"
    using assms uri_safe_not_delim by blast+
  have qc: "query_component (API_BASE @ js ''/search?q='' @ e @ js ''&limit=20'')
      = js ''q='' @ e @ js ''&limit=20''"
    using e(3) by (simp add: query_component_def API_BASE_def js_def takeWhile_append)
  have sp: "split_on 0x26 (js ''q='' @ e @ js ''&limit=20'') = [js ''q='' @ e, js ''limit=20'']"
    using e(1) split_on_append [of "0x26" "js ''q='' @ e" "js ''limit=20''"]
    by (simp add: js_def)
  show ?thesis
    using e(2)
    by (simp add: query_params_def qc sp) (simp add: js_def takeWhile_append dropWhile_append)
qed

subsection \<open>What one call of \<^verbatim>\<open>search\<close> does\<close>

lemma search_begin_cases:
  "search_begin st = (st', r) \<Longrightarrow>
     (trim (query st) = [] \<and> st' = st\<lparr>results := Value (JArr [])\<rparr> \<and> r = None) \<or>
     (trim (query st) \<noteq> [] \<and> (\<exists>e. encodeURIComponent (query st) = Inl e \<and>
        st' = catch_finally (st\<lparr>loading := True\<rparr>) e \<and> r = None)) \<or>
     (trim (query st) \<noteq> [] \<and> (\<exists>q. encodeURIComponent (query st) = Inr q \<and>
        st' = st\<lparr>loading := True\<rparr> \<and>
        r = Some (API_BASE @ js ''/search?q='' @ q @ js ''&limit=20'')))"
  by (auto simp: search_begin_def split: if_splits sum.splits)

text \<open>
  A query with an unpaired surrogate makes \<open>encodeURIComponent\<close> throw inside the
  \<^verbatim>\<open>try\<close> block: the error is logged and no request is sent.
\<close>

lemma search_throws_before_request:
  "trim (query st) \<noteq> [] \<Longrightarrow> encodeURIComponent (query st) = Inl error \<Longrightarrow>
   search net during_fetch during_json st
     = (st\<lparr>console := console st @ [(js ''Search failed:'', error)], loading := False\<rparr>, [])"
  by (simp add: search_def search_begin_def catch_finally_def)

text \<open>
  Any other query is requested: one code unit that \<^verbatim>\<open>trim\<close> does not count as white
  space (a zero-width space, say) is enough for the call to send a request.
\<close>

lemma search_nonblank_request:
  "\<not> is_white_space c \<Longrightarrow> c \<in> set (query st) \<Longrightarrow> encodeURIComponent (query st) = Inr q \<Longrightarrow>
   snd (search net during_fetch during_json st)
     = [API_BASE @ js ''/search?q='' @ q @ js ''&limit=20'']"
proof -
  assume "\<not> is_white_space c" and "c \<in> set (query st)"
  then have "trim (query st) \<noteq> []" by (auto simp: trim_empty_iff)
  moreover assume "encodeURIComponent (query st) = Inr q"
  ultimately show ?thesis
    by (simp add: search_def search_begin_def search_fetched_def
        split: fetch_outcome.splits)
qed

text \<open>
  A response with an error status and a JSON object for a body makes nothing throw:
  \<^verbatim>\<open>results\<close> becomes the body's \<^verbatim>\<open>results\<close> property, \<^verbatim>\<open>undefined\<close> when it
  has none, whatever the status.
\<close>

lemma search_error_status_body:
  assumes "snd (search net id id st) = [url]"
    and "net url = FetchResolves status (JsonResolves (JObj props))"
    and "map_of props (js ''results'') = None"
  shows "results (fst (search net id id st)) = Undefined"
proof -
  from assms(1) obtain st1 where "search_begin st = (st1, Some url)"
    by (auto simp: search_def split: prod.splits option.splits)
  with assms(2,3) show ?thesis
    by (simp add: search_def search_fetched_def search_parsed_def)
qed

text \<open>
  What does hold of a failed request. Past the blank-query check the call always ends
  with \<^verbatim>\<open>loading\<close> false. When the \<^verbatim>\<open>try\<close> block throws, the call leaves
  \<^verbatim>\<open>results\<close> as it was, provided nothing else on the page changed it meanwhile; and
  when nothing else runs at all, the only changes are the error appended to the console
  and \<^verbatim>\<open>loading\<close>.
\<close>

lemma search_loading_reset:
  "trim (query st) \<noteq> [] \<Longrightarrow> \<not> loading (fst (search net during_fetch during_json st))"
  by (auto simp: search_def search_begin_def search_fetched_def search_parsed_def
      catch_finally_def split: sum.splits fetch_outcome.splits json_outcome.splits)

lemma search_throw_keeps_results:
  assumes "snd (search net during_fetch during_json st) = [url]" and "try_block_throws (net url)"
    and "\<forall>s. results (during_fetch s) = results s" and "\<forall>s. results (during_json s) = results s"
  shows "results (fst (search net during_fetch during_json st)) = results st"
proof -
  from assms(1) obtain st1 where b: "search_begin st = (st1, Some url)"
    by (auto simp: search_def split: prod.splits option.splits)
  then have st1: "results st1 = results st"
    by (auto simp: search_begin_def split: if_splits sum.splits)
  from assms(2) show ?thesis
  proof (cases "net url" rule: try_block_throws.cases)
    case (1 error)
    with b st1 assms(3) show ?thesis
      by (simp add: search_def search_fetched_def catch_finally_def)
  next
    case (2 status error)
    with b st1 assms(3,4) show ?thesis
      by (simp add: search_def search_fetched_def search_parsed_def catch_finally_def)
  next
    case (3 status data)
    with b st1 assms(2,3,4) show ?thesis
      by (simp add: search_def search_fetched_def search_parsed_def catch_finally_def
          split: sum.splits)
  qed
qed

lemma search_throw_only_logs:
  assumes "snd (search net id id st) = [url]" and "try_block_throws (net url)"
  shows "\<exists>error. fst (search net id id st)
           = st\<lparr>console := console st @ [(js ''Search failed:'', error)], loading := False\<rparr>"
proof -
  from assms(1) obtain st1 where b: "search_begin st = (st1, Some url)"
    by (auto simp: search_def split: prod.splits option.splits)
  then have st1: "st1 = st\<lparr>loading := True\<rparr>"
    by (auto simp: search_begin_def split: if_splits sum.splits)
  from assms(2) show ?thesis
  proof (cases "net url" rule: try_block_throws.cases)
    case (1 error)
    with b st1 show ?thesis
      by (intro exI [of _ error]) (simp add: search_def search_fetched_def catch_finally_def)
  next
    case (2 status error)
    with b st1 show ?thesis
      by (intro exI [of _ error])
        (simp add: search_def search_fetched_def search_parsed_def catch_finally_def)
  next
    case (3 status data)
    with assms(2) obtain error where "get_results data = Inl error"
      by (auto split: sum.splits)
    with 3 b st1 show ?thesis
      by (intro exI [of _ error])
        (simp add: search_def search_fetched_def search_parsed_def catch_finally_def)
  qed
qed

text \<open>
  C8. When the query is empty or holds only white space, a call of \<^verbatim>\<open>search\<close> sets
  \<^verbatim>\<open>results\<close> to the empty array, changes nothing else and sends no request,
  whatever the network would answer and whatever else runs on the page.
\<close>

theorem search_blank_query:
  assumes "\<forall>c\<in>set (query st). is_white_space c"
  shows "search net during_fetch during_json st = (st\<lparr>results := Value (JArr [])\<rparr>, [])"
  using assms by (simp add: search_def search_begin_def trim_empty_iff)

theorem search_blank_query_witness:
  "list_all is_white_space [0x20, 0x09, 0x3000] \<and>
   search (\<lambda>url. FetchResolves 200 (JsonResolves (JObj [(js ''results'', JArr [JNum (1::nat)])])))
     id id
     \<lparr>query = [0x20, 0x09, 0x3000], results = Value (JArr [JNum 7]), stats = Undefined,
      loading = False, console = []\<rparr>
   = (\<lparr>query = [0x20, 0x09, 0x3000], results = Value (JArr []), stats = Undefined,
      loading = False, console = []\<rparr>, [])"
proof -
  have ws: "\<forall>c\<in>set [0x20, 0x09, 0x3000]. is_white_space c"
    by (simp add: is_white_space_def)
  show ?thesis
    using ws search_blank_query
      [of "\<lparr>query = [0x20, 0x09, 0x3000], results = Value (JArr [JNum 7]), stats = Undefined,
            loading = False, console = []\<rparr>"
          "\<lambda>url. FetchResolves 200 (JsonResolves (JObj [(js ''results'', JArr [JNum (1::nat)])]))"
          id id]
    by simp
qed

text \<open>
  C9. Every URL a call of \<^verbatim>\<open>search\<close> requests is \<^verbatim>\<open>API_BASE\<close>, then
  \<^verbatim>\<open>/search?q=\<close>, then \<open>encodeURIComponent\<close> of the query, then \<^verbatim>\<open>&limit=20\<close>.
  The encoded query holds no \<^verbatim>\<open>&\<close>, \<^verbatim>\<open>=\<close> or \<^verbatim>\<open>#\<close>, so the parameters a
  receiver reads are \<^verbatim>\<open>q\<close> and \<^verbatim>\<open>limit=20\<close> and no others: no text typed into the
  input gives another limit.
\<close>

theorem search_request_limit:
  assumes "url \<in> set (snd (search net during_fetch during_json st))"
  shows "\<exists>q. encodeURIComponent (query st) = Inr q \<and>
             url = API_BASE @ js ''/search?q='' @ q @ js ''&limit=20'' \<and>
             query_params url = [(js ''q'', q), (js ''limit'', js ''20'')]"
proof -
  obtain st1 r where b: "search_begin st = (st1, r)" by (cases "search_begin st")
  from assms b obtain u where r: "r = Some u" "url = u"
    by (cases r) (auto simp: search_def split: prod.splits option.splits)
  from search_begin_cases [OF b] r obtain q where
    q: "encodeURIComponent (query st) = Inr q"
       "u = API_BASE @ js ''/search?q='' @ q @ js ''&limit=20''"
    by auto
  have "\<forall>c\<in>set q. uri_safe c" using encodeURIComponent_safe [OF q(1)] by blast
  from query_params_search_url [OF this] q r show ?thesis by simp
qed

theorem search_request_limit_witness:
  "js ''http://localhost:8000/search?q=a%26limit%3D5&limit=20''
     \<in> set (snd (search (\<lambda>url. FetchRejects TypeError) id id
          \<lparr>query = js ''a&limit=5'', results = Value (JArr [JNum (7::nat)]), stats = Undefined,
           loading = False, console = []\<rparr>)) \<and>
   query_params (js ''http://localhost:8000/search?q=a%26limit%3D5&limit=20'')
     = [(js ''q'', js ''a%26limit%3D5''), (js ''limit'', js ''20'')]"
proof -
  let ?st = "\<lparr>query = js ''a&limit=5'', results = Value (JArr [JNum (7::nat)]),
              stats = Undefined, loading = False, console = []\<rparr>"
  let ?url = "js ''http://localhost:8000/search?q=a%26limit%3D5&limit=20''"
  have enc: "encodeURIComponent (js ''a&limit=5'') = Inr (js ''a%26limit%3D5'')"
    by (simp add: js_def is_uri_unescaped_def is_trailing_surrogate_def
        is_leading_surrogate_def utf8_octets_def percent_escape_def hex_digit_def)
  have nonblank: "trim (js ''a&limit=5'') \<noteq> []"
    by (simp add: trim_def js_def is_white_space_def)
  have mem: "?url \<in> set (snd (search (\<lambda>url. FetchRejects TypeError) id id ?st))"
    using enc nonblank
    by (simp add: search_def search_begin_def search_fetched_def API_BASE_def)
      (simp add: js_def)
  from search_request_limit [OF mem] obtain q where
    q: "encodeURIComponent (query ?st) = Inr q"
       "query_params ?url = [(js ''q'', q), (js ''limit'', js ''20'')]"
    by blast
  from q(1) enc have "q = js ''a%26limit%3D5''" by simp
  with q(2) mem show ?thesis by simp
qed

text \<open>
  C10. The page does not keep the result list when the search request fails with an
  error response. For the query \<^verbatim>\<open>paris\<close> and a server that answers with status 500
  and the JSON body \<^verbatim>\<open>{"detail": "boom"}\<close>, the fetch resolves, the body parses, and
  the call assigns \<^verbatim>\<open>data.results\<close>, which is \<^verbatim>\<open>undefined\<close>, to \<^verbatim>\<open>results\<close>: the
  list shown before is lost and nothing is logged. Only \<^verbatim>\<open>loading\<close> is reset. The
  declaration \<^verbatim>\<open>let results: SearchResult[]\<close> and the template's
  \<^verbatim>\<open>results.length\<close> both need an array there.
\<close>

theorem search_error_status_overwrites_results:
  "search (\<lambda>url. FetchResolves 500 (JsonResolves (JObj [(js ''detail'', JStr (js ''boom''))])))
     id id
     \<lparr>query = js ''paris'', results = Value (JArr [JNum (7::nat)]), stats = Undefined,
      loading = False, console = []\<rparr>
   = (\<lparr>query = js ''paris'', results = Undefined, stats = Undefined,
       loading = False, console = []\<rparr>,
      [js ''http://localhost:8000/search?q=paris&limit=20''])"
proof -
  have enc: "encodeURIComponent (js ''paris'') = Inr (js ''paris'')"
    by (simp add: js_def is_uri_unescaped_def)
  have nonblank: "trim (js ''paris'') \<noteq> []"
    by (simp add: trim_def js_def is_white_space_def)
  have no_results: "map_of [(js ''detail'', JStr (js ''boom'') :: nat json)] (js ''results'') = None"
    by (simp add: js_def)
  show ?thesis
    using enc nonblank no_results
    by (simp add: search_def search_begin_def search_fetched_def search_parsed_def
        API_BASE_def)
      (simp add: js_def)
qed

section \<open>Properties of the Storage Engine\<close>

subsection \<open>Writing a batch\<close>

lemma latest_id: "entity_id (latest es r) = entity_id r"
  unfolding latest_def by (induction es arbitrary: r) auto

lemma ids_upsert: "entity_id ` set (upsert e rs) = insert (entity_id e) (entity_id ` set rs)"
  by (induction rs) auto

lemma distinct_upsert:
  "distinct (map entity_id rs) \<Longrightarrow> distinct (map entity_id (upsert e rs))"
proof (induction rs)
  case Nil
  then show ?case by simp
next
  case (Cons r rs)
  show ?case
  proof (cases "entity_id r = entity_id e")
    case True
    with Cons.prems show ?thesis by simp
  next
    case False
    then have "entity_id r \<notin> entity_id ` set (upsert e rs)"
      using Cons.prems by (simp add: ids_upsert)
    with False Cons show ?thesis by simp
  qed
qed

text \<open>Writing a row whose \<^verbatim>\<open>id\<close> is stored replaces that row where it stands.\<close>

lemma upsert_present:
  "distinct (map entity_id rs) \<Longrightarrow> entity_id e \<in> entity_id ` set rs \<Longrightarrow>
   upsert e rs = map (\<lambda>r. if entity_id e = entity_id r then e else r) rs"
proof (induction rs)
  case Nil
  then show ?case by simp
next
  case (Cons r rs)
  show ?case
  proof (cases "entity_id r = entity_id e")
    case True
    with Cons.prems have "\<forall>x\<in>set rs. entity_id e \<noteq> entity_id x" by auto
    then have "map (\<lambda>r. if entity_id e = entity_id r then e else r) rs = rs"
      by (simp add: map_idI)
    with True show ?thesis by simp
  next
    case False
    with Cons show ?thesis by auto
  qed
qed

lemma in_upsert:
  "distinct (map entity_id rs) \<Longrightarrow> r \<in> set (upsert e rs) \<Longrightarrow>
   r = e \<or> (r \<in> set rs \<and> entity_id r \<noteq> entity_id e)"
proof (induction rs)
  case Nil
  then show ?case by simp
next
  case (Cons a rs)
  show ?case
  proof (cases "entity_id a = entity_id e")
    case True
    with Cons.prems show ?thesis by (auto simp: image_iff)
  next
    case False
    with Cons show ?thesis by auto
  qed
qed

lemma get_upsert: "find (\<lambda>r. entity_id r = entity_id e) (upsert e rs) = Some e"
  by (induction rs) auto

lemma distinct_fold_upsert:
  "distinct (map entity_id rs) \<Longrightarrow> distinct (map entity_id (fold upsert es rs))"
  by (induction es arbitrary: rs) (simp_all add: distinct_upsert)

lemma ids_fold_upsert:
  "entity_id ` set (fold upsert es rs) = entity_id ` set es \<union> entity_id ` set rs"
  by (induction es arbitrary: rs) (auto simp: ids_upsert)

text \<open>A batch whose ids are all stored rewrites the rows in place.\<close>

lemma fold_upsert_present:
  "distinct (map entity_id rs) \<Longrightarrow> entity_id ` set es \<subseteq> entity_id ` set rs \<Longrightarrow>
   fold upsert es rs = map (latest es) rs"
proof (induction es arbitrary: rs)
  case Nil
  then show ?case by (simp add: latest_def)
next
  case (Cons e es)
  let ?f = "\<lambda>r. if entity_id e = entity_id r then e else r"
  have u: "upsert e rs = map ?f rs" using Cons.prems by (intro upsert_present) auto
  have ids: "map entity_id (map ?f rs) = map entity_id rs" by (induction rs) auto
  then have ids': "entity_id ` set (map ?f rs) = entity_id ` set rs"
    by (metis set_map)
  have "fold upsert es (map ?f rs) = map (latest es) (map ?f rs)"
  proof (rule Cons.IH)
    show "distinct (map entity_id (map ?f rs))" unfolding ids by (rule Cons.prems(1))
    show "entity_id ` set es \<subseteq> entity_id ` set (map ?f rs)"
      using Cons.prems(2) unfolding ids' by simp
  qed
  then show ?case by (simp add: u latest_def comp_def)
qed

text \<open>Every row a batch leaves behind is already what the batch would make of it.\<close>

lemma latest_fixed:
  "distinct (map entity_id rs) \<Longrightarrow> r \<in> set (fold upsert es rs) \<Longrightarrow> latest es r = r"
proof (induction es arbitrary: r rule: rev_induct)
  case Nil
  then show ?case by (simp add: latest_def)
next
  case (snoc e es)
  from snoc.prems have "r \<in> set (upsert e (fold upsert es rs))" by simp
  then have "r = e \<or> (r \<in> set (fold upsert es rs) \<and> entity_id r \<noteq> entity_id e)"
    using in_upsert distinct_fold_upsert [OF snoc.prems(1)] by blast
  then show ?case
  proof
    assume "r = e"
    then show ?thesis using latest_id [of es e] by (simp add: latest_def)
  next
    assume a: "r \<in> set (fold upsert es rs) \<and> entity_id r \<noteq> entity_id e"
    then have "latest es r = r" using snoc.IH snoc.prems(1) by blast
    with a show ?thesis by (auto simp add: latest_def)
  qed
qed

lemma fold_upsert_idem:
  assumes "distinct (map entity_id rs)"
  shows "fold upsert es (fold upsert es rs) = fold upsert es rs"
proof -
  let ?s = "fold upsert es rs"
  have "fold upsert es ?s = map (latest es) ?s"
  proof (rule fold_upsert_present)
    show "distinct (map entity_id ?s)" using assms by (rule distinct_fold_upsert)
    show "entity_id ` set es \<subseteq> entity_id ` set ?s" by (simp add: ids_fold_upsert)
  qed
  also have "\<dots> = ?s" using latest_fixed [OF assms] by (simp add: map_idI)
  finally show ?thesis .
qed

text \<open>
  C2. On a store with unique ids, a batch that is applied a second time leaves the rows,
  the SearchIndex and \<^verbatim>\<open>stats()\<close> as the first application left them, whatever the
  batch (repeated ids included), and the ids stay unique. The last entity of the batch
  is then the row stored under its id, and a batch whose ids were all stored adds no row.
\<close>

theorem upsert_batch_idempotent:
  assumes "unique_ids st"
    and "upsert_batch True entities st = Inr once"
    and "upsert_batch True entities once = Inr twice"
  shows "twice = once \<and> search_index twice = search_index once \<and>
         engine_stats twice = engine_stats once \<and> unique_ids once \<and>
         (\<forall>es e. entities = es @ [e] \<longrightarrow> engine_get (entity_id e) once = Some e) \<and>
         (entity_id ` set entities \<subseteq> entity_id ` set st \<longrightarrow> length once = length st)"
proof -
  from assms(2) have once: "once = fold upsert entities st"
    by (simp add: upsert_batch_def)
  from assms(3) have twice: "twice = fold upsert entities once"
    by (simp add: upsert_batch_def)
  from assms(1) have d: "distinct (map entity_id st)"
    by (simp add: unique_ids_def)
  have same: "twice = once"
    unfolding twice once using d by (rule fold_upsert_idem)
  have uniq: "unique_ids once"
    unfolding once unique_ids_def using d by (rule distinct_fold_upsert)
  have last: "\<forall>es e. entities = es @ [e] \<longrightarrow> engine_get (entity_id e) once = Some e"
    by (simp add: once engine_get_def get_upsert)
  have len: "entity_id ` set entities \<subseteq> entity_id ` set st \<longrightarrow> length once = length st"
    using d by (simp add: once fold_upsert_present)
  from same uniq last len show ?thesis by simp
qed

theorem upsert_batch_idempotent_witness:
  "unique_ids [paris] \<and>
   upsert_batch True [paris_later, paris_hilton, paris_later] [paris]
     = Inr [paris_later, paris_hilton] \<and>
   upsert_batch True [paris_later, paris_hilton, paris_later] [paris_later, paris_hilton]
     = Inr [paris_later, paris_hilton] \<and>
   engine_stats [paris_later, paris_hilton] Item = 2 \<and>
   engine_get ''Q1'' [paris_later, paris_hilton] = Some paris_later"
proof -
  have ids: "entity_id paris = ''Q1''" "entity_id paris_later = ''Q1''"
    "entity_id paris_hilton = ''Q2''"
    by (simp_all add: paris_def paris_later_def paris_hilton_def)
  have u: "unique_ids [paris]" by (simp add: unique_ids_def)
  have a: "upsert_batch True [paris_later, paris_hilton, paris_later] [paris]
      = Inr [paris_later, paris_hilton]"
    by (simp add: upsert_batch_def ids)
  obtain twice where
    b: "upsert_batch True [paris_later, paris_hilton, paris_later] [paris_later, paris_hilton]
      = Inr twice"
    by (simp add: upsert_batch_def)
  from upsert_batch_idempotent [OF u a b]
  have "twice = [paris_later, paris_hilton]"
    and "engine_get (entity_id paris_later) [paris_later, paris_hilton] = Some paris_later"
    by simp_all
  moreover have "engine_stats [paris_later, paris_hilton] Item = 2"
    by (simp add: engine_stats_def paris_later_def paris_hilton_def)
  ultimately show ?thesis using u a b by (simp add: ids)
qed

subsection \<open>Searching\<close>

lemma matches_ids:
  "map (entity_id \<circ> fst) (matches relevance q st)
     = map entity_id (filter (\<lambda>e. relevance q (indexed_text e) \<noteq> None) st)"
  by (induction st) (auto simp: matches_def split: option.splits)

lemma distinct_match_ids:
  "distinct (map entity_id st) \<Longrightarrow>
   distinct (map (entity_id \<circ> fst) (matches relevance q st))"
  unfolding matches_ids by (rule distinct_map_filter)

lemma distinct_rank_keys:
  assumes "distinct (map entity_id st)"
  shows "distinct (map rank_key (matches relevance q st))"
proof -
  have "distinct (map snd (map rank_key (matches relevance q st)))"
    using distinct_match_ids [OF assms, of relevance q] by (simp add: rank_key_def comp_def)
  then show ?thesis by (simp only: distinct_map [of snd])
qed

lemma rank_key_less: "rank_key a < rank_key b \<longleftrightarrow> ranks_before a b"
  by (auto simp: rank_key_def ranks_before_def)

lemma mset_concat_map: "mset (concat (map f xs)) = (\<Sum>x\<in>#mset xs. mset (f x))"
  by (induction xs) simp_all

lemma mset_matches:
  "mset st' = mset st \<Longrightarrow> mset (matches relevance q st') = mset (matches relevance q st)"
  by (simp add: matches_def mset_concat_map)

text \<open>Sorting by a key that no two elements share does not depend on the input order.\<close>

lemma sort_key_unique:
  assumes "mset xs = mset ys" and "distinct (map f xs)"
  shows "sort_key f xs = sort_key f ys"
proof -
  have "mset (map f xs) = mset (map f ys)"
    using assms(1) by simp
  then have dy: "distinct (map f ys)"
    using assms(2) mset_eq_imp_distinct_iff by blast
  have se: "set xs = set ys" using assms(1) by (rule mset_eq_setD)
  have "map f (sort_key f xs) = map f (sort_key f ys)"
  proof (rule sorted_distinct_set_unique)
    show "sorted (map f (sort_key f xs))" "sorted (map f (sort_key f ys))" by simp_all
    show "distinct (map f (sort_key f xs))" using assms(2) by (simp add: distinct_map)
    show "distinct (map f (sort_key f ys))" using dy by (simp add: distinct_map)
    show "set (map f (sort_key f xs)) = set (map f (sort_key f ys))"
      using se by simp
  qed
  moreover have "inj_on f (set (sort_key f xs) \<union> set (sort_key f ys))"
    using assms(2) se by (simp add: distinct_map)
  ultimately show ?thesis by (simp add: inj_on_map_eq_map)
qed

lemma search_sorted:
  assumes "distinct (map entity_id st)"
  shows "sorted_wrt ranks_before (engine_search relevance q limit st)"
proof -
  let ?hits = "sort_key rank_key (matches relevance q st)"
  have "sorted (map rank_key ?hits)" by simp
  moreover have "distinct (map rank_key ?hits)"
    using distinct_rank_keys [OF assms, of relevance q] by (simp add: distinct_map)
  ultimately have "sorted_wrt (<) (map rank_key ?hits)"
    by (simp add: strict_sorted_iff)
  then have "sorted_wrt ranks_before ?hits"
    by (simp add: sorted_wrt_map rank_key_less)
  then show ?thesis
    unfolding engine_search_def by (rule sorted_wrt_take)
qed

lemma search_row_order:
  assumes "distinct (map entity_id st)" and "mset st' = mset st"
  shows "engine_search relevance q limit st' = engine_search relevance q limit st"
proof -
  have "sort_key rank_key (matches relevance q st) = sort_key rank_key (matches relevance q st')"
    using mset_matches [OF assms(2), of relevance q]
      distinct_rank_keys [OF assms(1), of relevance q]
    by (intro sort_key_unique) simp_all
  then show ?thesis by (simp add: engine_search_def)
qed

text \<open>
  C7. On a store with unique ids, for every scoring, query and limit, each hit
  \<^verbatim>\<open>search\<close> returns has a higher score than every hit after it, or the same score and
  a smaller id; there are at most \<open>limit\<close> hits; and the same rows stored in any other
  physical order give the same sequence, so a repeated run returns it again.
\<close>

theorem engine_search_ordered:
  assumes "unique_ids st"
  shows "sorted_wrt ranks_before (engine_search relevance q limit st) \<and>
         length (engine_search relevance q limit st) \<le> limit \<and>
         (\<forall>st'. mset st' = mset st \<longrightarrow>
            engine_search relevance q limit st' = engine_search relevance q limit st)"
proof -
  from assms have d: "distinct (map entity_id st)" by (simp add: unique_ids_def)
  have "length (engine_search relevance q limit st) \<le> limit"
    by (simp add: engine_search_def)
  with search_sorted [OF d] search_row_order [OF d] show ?thesis by blast
qed

theorem engine_search_ordered_witness:
  "unique_ids [paris_hilton, paris] \<and>
   engine_search starts_with ''Paris'' 20 [paris_hilton, paris]
     = [(paris, 1), (paris_hilton, 1)] \<and>
   engine_search starts_with ''Paris'' 20 [paris, paris_hilton]
     = [(paris, 1), (paris_hilton, 1)] \<and>
   sorted_wrt ranks_before [(paris, 1), (paris_hilton, 1)]"
proof -
  have u: "unique_ids [paris_hilton, paris]"
    by (simp add: unique_ids_def paris_def paris_hilton_def)
  have hits: "matches starts_with ''Paris'' [paris_hilton, paris]
      = [(paris_hilton, 1), (paris, 1)]"
    by (simp add: matches_def indexed_text_def paris_def paris_hilton_def starts_with_def)
  have run: "engine_search starts_with ''Paris'' 20 [paris_hilton, paris]
      = [(paris, 1), (paris_hilton, 1)]"
    by (simp add: engine_search_def hits) (simp add: rank_key_def paris_def paris_hilton_def)
  have same_rows: "mset [paris, paris_hilton] = mset [paris_hilton, paris]"
    by simp
  from engine_search_ordered [OF u, of starts_with "''Paris''" 20]
  have "sorted_wrt ranks_before (engine_search starts_with ''Paris'' 20 [paris_hilton, paris])"
    and "engine_search starts_with ''Paris'' 20 [paris, paris_hilton]
           = engine_search starts_with ''Paris'' 20 [paris_hilton, paris]"
    using same_rows by blast+
  with u run show ?thesis by simp
qed

end
